theory Spec2Isabelle
  imports Complex_Main "HOL-Library.Multiset"
begin

section \<open>Common data\<close>

text \<open>
  Metric values, coordinates and transform parameters are floating-point numbers in the
  notebooks; they are modelled as exact reals. Exceptions are values of \<open>py_error\<close>:
  \<open>RuntimeError\<close> is what the registration library raises from a metric evaluation,
  \<open>ValueError\<close> is Python's and numpy's complaint about a minimum over an empty
  sequence, \<open>LinAlgError\<close> and \<open>IndexError\<close> belong to the sphere fit,
  \<open>DimensionMismatch\<close> to the registration error estimator.
\<close>

datatype py_error = RuntimeError | ValueError | LinAlgError | IndexError | DimensionMismatch

type_synonym orientation = "real \<times> real \<times> real"

text \<open>
  An Euler transform as the notebooks use it: the fixed parameters (centre of rotation)
  and the six optimised parameters. \<open>SetParameters\<close> overwrites the second field.
\<close>

record transform =
  fixed_parameters :: "real list"
  parameters :: "real list"

definition SetParameters :: "transform \<Rightarrow> real list \<Rightarrow> transform" where
  "SetParameters tx ps = tx\<lparr>parameters := ps\<rparr>"

section \<open>Exploitation step (63_Registration_Initialization, exploitation cell)\<close>

text \<open>
  \<open>min(final_results, key=lambda x: x[1])\<close>: Python's \<open>min\<close> keeps the first
  element among those with the smallest key and raises \<open>ValueError\<close> on an empty
  sequence.
\<close>

fun min_key_loop :: "('a \<Rightarrow> real) \<Rightarrow> 'a \<Rightarrow> 'a list \<Rightarrow> 'a" where
  "min_key_loop key best [] = best"
| "min_key_loop key best (x # xs) =
     (if key x < key best then min_key_loop key x xs else min_key_loop key best xs)"

definition py_min_key :: "('a \<Rightarrow> real) \<Rightarrow> 'a list \<Rightarrow> py_error + 'a" where
  "py_min_key key xs = (case xs of [] \<Rightarrow> Inl ValueError | x # rest \<Rightarrow> Inr (min_key_loop key x rest))"

text \<open>
  \<open>metricvalue_parameters_list.sort(key=lambda x: x[0])\<close>: Python's sort is stable,
  and so is \<open>sort_key\<close>, hence both give the same list.
\<close>

definition sort_by_metric :: "(real \<times> real list) list \<Rightarrow> (real \<times> real list) list" where
  "sort_by_metric metricvalue_parameters_list = sort_key fst metricvalue_parameters_list"

definition k_most_promising :: "(real \<times> real list) list \<Rightarrow> nat" where
  "k_most_promising metricvalue_parameters_list = min 3 (length metricvalue_parameters_list)"

text \<open>
  The slice \<open>metricvalue_parameters_list[0:k_most_promising]\<close> of the sorted list.
\<close>

definition most_promising :: "(real \<times> real list) list \<Rightarrow> (real \<times> real list) list" where
  "most_promising metricvalue_parameters_list =
     take (k_most_promising (sort_by_metric metricvalue_parameters_list))
          (sort_by_metric metricvalue_parameters_list)"

text \<open>
  The loop over the slice. Its state is the transform \<open>initial_transform\<close>, mutated by
  \<open>SetParameters\<close> in every round, and the list \<open>final_results\<close>.
  \<open>multires_registration\<close> runs the library's optimiser; it is a parameter here and
  returns the pair (final transform, final metric value).
\<close>

fun exploit_loop ::
  "(transform \<Rightarrow> 'r \<times> real) \<Rightarrow> (real \<times> real list) list \<Rightarrow> transform \<Rightarrow> ('r \<times> real) list
     \<Rightarrow> transform \<times> ('r \<times> real) list" where
  "exploit_loop multires_registration [] initial_transform final_results =
     (initial_transform, final_results)"
| "exploit_loop multires_registration ((metricvalue, ps) # rest) initial_transform final_results =
     (let initial_transform' = SetParameters initial_transform ps
      in exploit_loop multires_registration rest initial_transform'
           (final_results @ [multires_registration initial_transform']))"

definition final_results_of ::
  "(transform \<Rightarrow> 'r \<times> real) \<Rightarrow> transform \<Rightarrow> (real \<times> real list) list \<Rightarrow> ('r \<times> real) list" where
  "final_results_of multires_registration initial_transform metricvalue_parameters_list =
     snd (exploit_loop multires_registration (most_promising metricvalue_parameters_list)
            initial_transform [])"

text \<open>The refined result the cell selects, with its final metric value.\<close>

definition exploitation_best ::
  "(transform \<Rightarrow> 'r \<times> real) \<Rightarrow> transform \<Rightarrow> (real \<times> real list) list \<Rightarrow> py_error + ('r \<times> real)" where
  "exploitation_best multires_registration initial_transform metricvalue_parameters_list =
     py_min_key snd
       (final_results_of multires_registration initial_transform metricvalue_parameters_list)"

text \<open>\<open>final_transform, _ = min(final_results, key=lambda x: x[1])\<close>.\<close>

definition exploitation ::
  "(transform \<Rightarrow> 'r \<times> real) \<Rightarrow> transform \<Rightarrow> (real \<times> real list) list \<Rightarrow> py_error + 'r" where
  "exploitation multires_registration initial_transform metricvalue_parameters_list =
     (case exploitation_best multires_registration initial_transform metricvalue_parameters_list of
        Inl e \<Rightarrow> Inl e
      | Inr (final_transform, _) \<Rightarrow> Inr final_transform)"

text \<open>Refining one candidate on its own, from the same initial transform.\<close>

definition refine_single :: "(transform \<Rightarrow> 'r \<times> real) \<Rightarrow> transform \<Rightarrow> real list \<Rightarrow> 'r \<times> real" where
  "refine_single multires_registration initial_transform ps =
     multires_registration (SetParameters initial_transform ps)"

section \<open>Exploration by metric evaluation (63_Registration_Initialization, MetricEvaluate cells)\<close>

text \<open>
  The library's \<open>MetricEvaluate\<close> at a given rotation is a parameter
  \<open>evaluate :: orientation \<Rightarrow> real option\<close>; \<open>None\<close> stands for an exception raised by
  the library. Neither cell catches exceptions. The dictionary \<open>all_orientations\<close> is an
  association list in insertion order, the order in which Python iterates over it.
\<close>

text \<open>
  The sequential cell: the loop over \<open>all_orientations.items()\<close>, with the state
  (\<open>best_orientation\<close>, \<open>best_similarity_value\<close>).
\<close>

fun sequential_loop ::
  "(orientation \<Rightarrow> real option) \<Rightarrow> (string \<times> orientation) list \<Rightarrow> orientation \<times> real
     \<Rightarrow> py_error + orientation \<times> real" where
  "sequential_loop evaluate [] best = Inr best"
| "sequential_loop evaluate ((key, orientation) # rest) (best_orientation, best_similarity_value) =
     (case evaluate orientation of
        None \<Rightarrow> Inl RuntimeError
      | Some current_similarity_value \<Rightarrow>
          if current_similarity_value < best_similarity_value
          then sequential_loop evaluate rest (orientation, current_similarity_value)
          else sequential_loop evaluate rest (best_orientation, best_similarity_value))"

definition sequential_exploration ::
  "(orientation \<Rightarrow> real option) \<Rightarrow> (string \<times> orientation) list \<Rightarrow> py_error + orientation" where
  "sequential_exploration evaluate all_orientations =
     (case evaluate (0, 0, 0) of
        None \<Rightarrow> Inl RuntimeError
      | Some best_similarity_value \<Rightarrow>
          (case sequential_loop evaluate all_orientations ((0, 0, 0), best_similarity_value) of
             Inl e \<Rightarrow> Inl e
           | Inr (best_orientation, _) \<Rightarrow> Inr best_orientation))"

text \<open>
  The parallel cell. \<open>ThreadPool.map\<close> runs one task per list element, in an order of
  its own, and stores each outcome in the slot of its element; it returns the values in
  the order of the input once every task is over, and re-raises if a task raised. The
  order of execution is the parameter \<open>schedule\<close>, a list of task indices.
\<close>

datatype 'b task = Pending | Returned 'b | Raised

definition run_task :: "('a \<Rightarrow> 'b option) \<Rightarrow> 'a \<Rightarrow> 'b task" where
  "run_task f x = (case f x of None \<Rightarrow> Raised | Some v \<Rightarrow> Returned v)"

definition pool_step :: "('a \<Rightarrow> 'b option) \<Rightarrow> 'a list \<Rightarrow> nat \<Rightarrow> 'b task list \<Rightarrow> 'b task list" where
  "pool_step f xs i slots = (if i < length xs then slots[i := run_task f (xs ! i)] else slots)"

definition pool_slots :: "nat list \<Rightarrow> ('a \<Rightarrow> 'b option) \<Rightarrow> 'a list \<Rightarrow> 'b task list" where
  "pool_slots schedule f xs = fold (pool_step f xs) schedule (replicate (length xs) Pending)"

fun collect :: "'b task list \<Rightarrow> py_error + 'b list" where
  "collect [] = Inr []"
| "collect (Returned v # slots) =
     (case collect slots of Inl e \<Rightarrow> Inl e | Inr vs \<Rightarrow> Inr (v # vs))"
| "collect (Raised # slots) = Inl RuntimeError"
| "collect (Pending # slots) = Inl RuntimeError"

definition pool_map :: "nat list \<Rightarrow> ('a \<Rightarrow> 'b option) \<Rightarrow> 'a list \<Rightarrow> py_error + 'b list" where
  "pool_map schedule f xs = collect (pool_slots schedule f xs)"

text \<open>
  \<open>np.argmin\<close>: the index of the first occurrence of the smallest value;
  \<open>ValueError\<close> on an empty sequence.
\<close>

fun argmin_loop :: "real list \<Rightarrow> nat \<Rightarrow> nat \<Rightarrow> real \<Rightarrow> nat" where
  "argmin_loop [] i best_i best_v = best_i"
| "argmin_loop (v # vs) i best_i best_v =
     (if v < best_v then argmin_loop vs (Suc i) i v else argmin_loop vs (Suc i) best_i best_v)"

definition np_argmin :: "real list \<Rightarrow> py_error + nat" where
  "np_argmin vs = (case vs of [] \<Rightarrow> Inl ValueError | v # rest \<Rightarrow> Inr (argmin_loop rest 1 0 v))"

definition orientations_list :: "(string \<times> orientation) list \<Rightarrow> orientation list" where
  "orientations_list all_orientations = (0, 0, 0) # map snd all_orientations"

definition parallel_exploration ::
  "nat list \<Rightarrow> (orientation \<Rightarrow> real option) \<Rightarrow> (string \<times> orientation) list
     \<Rightarrow> py_error + orientation" where
  "parallel_exploration schedule evaluate all_orientations =
     (case pool_map schedule evaluate (orientations_list all_orientations) of
        Inl e \<Rightarrow> Inl e
      | Inr all_metric_values \<Rightarrow>
          (case np_argmin all_metric_values of
             Inl e \<Rightarrow> Inl e
           | Inr i \<Rightarrow>
               if i < length (orientations_list all_orientations)
               then Inr (orientations_list all_orientations ! i)
               else Inl IndexError))"

text \<open>A metric evaluation that never raises: a pure function of the orientation.\<close>

definition pure_evaluate :: "(orientation \<Rightarrow> real) \<Rightarrow> orientation \<Rightarrow> real option" where
  "pure_evaluate metric orientation = Some (metric orientation)"

text \<open>The dictionary of the notebook.\<close>

definition all_orientations :: "(string \<times> orientation) list" where
  "all_orientations =
     [(''x=0, y=0, z=180'', (0, 0, pi)),
      (''x=0, y=180, z=0'', (0, pi, 0)),
      (''x=0, y=180, z=180'', (0, pi, pi))]"

section \<open>Least-squares sphere fit (edge detection cell)\<close>

text \<open>
  A physical point of the three-dimensional image, as \<open>TransformIndexToPhysicalPoint\<close>
  returns it.
\<close>

type_synonym point = "real \<times> real \<times> real"

text \<open>\<open>linalg.norm\<close> of a vector: the Euclidean norm.\<close>

definition linalg_norm :: "real list \<Rightarrow> real" where
  "linalg_norm v = sqrt (\<Sum>x\<leftarrow>v. x\<^sup>2)"

text \<open>
  \<open>np.sqrt\<close> of a floating-point scalar: the root of a non-negative number, and the
  value \<open>nan\<close> for a negative one. numpy raises no exception there (under its default
  error state it writes a \<open>RuntimeWarning\<close> to the error stream, which is not part of
  the value computed).
\<close>

datatype np_float = Num real | NaN

definition np_sqrt :: "real \<Rightarrow> np_float" where
  "np_sqrt x = (if x < 0 then NaN else Num (sqrt x))"

text \<open>
  One round of the loop over \<open>enumerate(physical_points)\<close>:
  \<open>A[row, 0:3] = -2 * np.array(point)\<close> and \<open>b[row] = -linalg.norm(point) ** 2\<close>.
\<close>

definition assign_row ::
  "nat \<Rightarrow> point \<Rightarrow> real list list \<times> real list \<Rightarrow> real list list \<times> real list" where
  "assign_row row point Ab =
     (case point of (x, y, z) \<Rightarrow>
        case Ab of (A, b) \<Rightarrow>
          (A[row := [-2 * x, -2 * y, -2 * z] @ drop 3 (A ! row)],
           b[row := - (linalg_norm [x, y, z])\<^sup>2]))"

fun fill_system ::
  "(nat \<times> point) list \<Rightarrow> real list list \<times> real list \<Rightarrow> real list list \<times> real list" where
  "fill_system [] Ab = Ab"
| "fill_system ((row, point) # rest) Ab = fill_system rest (assign_row row point Ab)"

text \<open>
  \<open>A = np.ones((len(physical_points), 4))\<close>, \<open>b = np.zeros(len(physical_points))\<close>,
  then the loop.
\<close>

definition linear_system :: "point list \<Rightarrow> real list list \<times> real list" where
  "linear_system physical_points =
     fill_system (enumerate 0 physical_points)
       (replicate (length physical_points) (replicate 4 1),
        replicate (length physical_points) 0)"

definition system_matrix :: "point list \<Rightarrow> real list list" where
  "system_matrix physical_points = fst (linear_system physical_points)"

definition system_rhs :: "point list \<Rightarrow> real list" where
  "system_rhs physical_points = snd (linear_system physical_points)"

text \<open>
  What the cell reports from the solution vector \<open>res\<close>: the location \<open>res[0:3]\<close> and
  the radius \<open>np.sqrt(linalg.norm(res[0:3])**2 - res[3])\<close>. Nothing is checked before
  the root is taken. Reading \<open>res[3]\<close> or formatting three coordinates raises
  \<open>IndexError\<close> on a shorter vector.
\<close>

record sphere =
  location :: "real list"
  radius :: np_float

definition sphere_from_solution :: "real list \<Rightarrow> py_error + sphere" where
  "sphere_from_solution res =
     (if length res < 4 then Inl IndexError
      else Inr \<lparr>location = take 3 res,
                radius = np_sqrt ((linalg_norm (take 3 res))\<^sup>2 - res ! 3)\<rparr>)"

text \<open>
  The whole cell. \<open>linalg.lstsq\<close> is the library's solver, a parameter here: it returns
  the solution vector or raises (\<open>LinAlgError\<close>, \<open>ValueError\<close>).
\<close>

definition fit_sphere_least_squares ::
  "(real list list \<Rightarrow> real list \<Rightarrow> py_error + real list) \<Rightarrow> point list \<Rightarrow> py_error + sphere" where
  "fit_sphere_least_squares lstsq physical_points =
     (case lstsq (system_matrix physical_points) (system_rhs physical_points) of
        Inl e \<Rightarrow> Inl e
      | Inr res \<Rightarrow> sphere_from_solution res)"

text \<open>
  The contract of the solver: its result minimises the sum of the squared residuals
  \<open>\<parallel>A x - b\<parallel>\<^sup>2\<close> over all vectors with one entry per column.
\<close>

definition dot :: "real list \<Rightarrow> real list \<Rightarrow> real" where
  "dot u v = (\<Sum>(a, b)\<leftarrow>zip u v. a * b)"

definition residual :: "real list list \<Rightarrow> real list \<Rightarrow> real list \<Rightarrow> real" where
  "residual A b x = (\<Sum>(row, rhs)\<leftarrow>zip A b. (dot row x - rhs)\<^sup>2)"

definition least_squares_solution :: "real list list \<Rightarrow> real list \<Rightarrow> real list \<Rightarrow> bool" where
  "least_squares_solution A b x \<longleftrightarrow>
     length x = 4 \<and> (\<forall>y. length y = 4 \<longrightarrow> residual A b x \<le> residual A b y)"

text \<open>
  The sum of the squared algebraic distances of the points to the sphere with centre
  \<open>(cx, cy, cz)\<close> and \<open>k = \<parallel>c\<parallel>\<^sup>2 - r\<^sup>2\<close>, as the notebook defines it.
\<close>

definition algebraic_cost :: "point list \<Rightarrow> real \<Rightarrow> real \<Rightarrow> real \<Rightarrow> real \<Rightarrow> real" where
  "algebraic_cost physical_points cx cy cz k =
     (\<Sum>(x, y, z)\<leftarrow>physical_points.
        (x\<^sup>2 + y\<^sup>2 + z\<^sup>2 - 2 * (x * cx + y * cy + z * cz) + k)\<^sup>2)"

text \<open>
  The system as the notebook's formula writes it: row \<open>[-2 p, 1]\<close> and right-hand side
  \<open>-\<parallel>p\<parallel>\<^sup>2\<close> for the point \<open>p\<close>; \<open>new_row\<close> is the effect of the slice assignment
  on one row of \<open>A\<close>.
\<close>

definition new_row :: "point \<Rightarrow> real list \<Rightarrow> real list" where
  "new_row p old = (case p of (x, y, z) \<Rightarrow> [-2 * x, -2 * y, -2 * z] @ drop 3 old)"

definition spec_rhs :: "point \<Rightarrow> real" where
  "spec_rhs p = (case p of (x, y, z) \<Rightarrow> - (x\<^sup>2 + y\<^sup>2 + z\<^sup>2))"

definition spec_row :: "point \<Rightarrow> real list" where
  "spec_row p = (case p of (x, y, z) \<Rightarrow> [-2 * x, -2 * y, -2 * z, 1])"

section \<open>Registration errors (function of registration_utilities, called by the notebooks)\<close>

text \<open>
  Modelled from the spec: the Euclidean distance of two points of the error estimator,
  which are coordinate sequences of a fixed dimension (2 or 3); the estimator's module
  \<open>registration_utilities\<close> is not among the sources.
\<close>

definition euclidean_distance :: "real list \<Rightarrow> real list \<Rightarrow> real" where
  "euclidean_distance p q = linalg_norm (map2 (\<lambda>a b. a - b) p q)"

text \<open>
  Modelled from the spec: the summary statistics that the estimator of the missing module
  \<open>registration_utilities\<close> returns, the standard deviation taken over the whole
  population. The spec gives no value to the statistics of an empty sequence, and nothing
  below speaks about them there.
\<close>

definition mean :: "real list \<Rightarrow> real" where
  "mean ds = sum_list ds / real (length ds)"

definition std :: "real list \<Rightarrow> real" where
  "std ds = sqrt (mean (map (\<lambda>d. (d - mean ds)\<^sup>2) ds))"

fun minimum :: "real list \<Rightarrow> real" where
  "minimum (d # ds) = fold min ds d"

fun maximum :: "real list \<Rightarrow> real" where
  "maximum (d # ds) = fold max ds d"

text \<open>
  Modelled from the spec: \<open>registration_errors\<close> is defined in the module
  \<open>registration_utilities\<close>, which the notebooks import and which is not among the sources;
  only its call sites are. After the spec (4.1, 6, 7): the function takes a transform and
  two point sequences, fails at once with \<open>DimensionMismatch\<close> if the sequences differ in
  length, and otherwise returns the mean, the standard deviation, the minimum and the
  maximum of the residual distances together with the distances themselves, the distance
  of a pair being the Euclidean distance between the transformed source point and the
  target point.
\<close>

definition registration_errors ::
  "(real list \<Rightarrow> real list) \<Rightarrow> real list list \<Rightarrow> real list list
     \<Rightarrow> py_error + (real \<times> real \<times> real \<times> real \<times> real list)" where
  "registration_errors tx source_points target_points =
     (if length source_points \<noteq> length target_points then Inl DimensionMismatch
      else
        let errors = map2 (\<lambda>p_source p_target. euclidean_distance (tx p_source) p_target)
                       source_points target_points
        in Inr (mean errors, std errors, minimum errors, maximum errors, errors))"

section \<open>Concrete inputs\<close>

text \<open>
  A stand-in for the library's registration: it hands back the parameters it started from
  and takes their sum as the final metric value.
\<close>

definition toy_registration :: "transform \<Rightarrow> real list \<times> real" where
  "toy_registration tx = (parameters tx, sum_list (parameters tx))"

definition toy_transform :: transform where
  "toy_transform = \<lparr>fixed_parameters = [0, 0, 0, 0], parameters = [0, 0, 0, 0, 0, 0]\<rparr>"

definition five_candidates :: "(real \<times> real list) list" where
  "five_candidates = [(2, [1]), (1, [5]), (3, [0]), (1, [7]), (0, [9])]"

definition two_candidates :: "(real \<times> real list) list" where
  "two_candidates = [(2, [4]), (1, [5])]"

definition three_candidates :: "(real \<times> real list) list" where
  "three_candidates = [(2, [1]), (1, [5]), (3, [0])]"

text \<open>A metric that the library evaluates everywhere, with a tie for the smallest value.\<close>

definition toy_metric :: "orientation \<Rightarrow> real" where
  "toy_metric orientation =
     (if orientation = (0, 0, 0) then 5
      else if orientation = (0, 0, pi) then 2
      else if orientation = (0, pi, 0) then 2
      else 7)"

text \<open>A metric whose evaluation raises at one rotation and succeeds at every other.\<close>

definition metric_failing_at_z180 :: "orientation \<Rightarrow> real option" where
  "metric_failing_at_z180 orientation =
     (if orientation = (0, 0, pi) then None
      else if orientation = (0, 0, 0) then Some 5
      else Some 7)"

text \<open>Four points of the unit sphere about the origin that do not lie in a plane.\<close>

definition unit_sphere_points :: "point list" where
  "unit_sphere_points = [(1, 0, 0), (0, 1, 0), (0, 0, 1), (-1, 0, 0)]"

text \<open>A solver that answers with the parameters of the unit sphere about the origin.\<close>

definition unit_sphere_solver :: "real list list \<Rightarrow> real list \<Rightarrow> py_error + real list" where
  "unit_sphere_solver A b = Inr [0, 0, 0, -1]"

text \<open>A solver whose answer has \<open>k = 1\<close> above the squared norm of its centre.\<close>

definition invalid_sphere_solver :: "real list list \<Rightarrow> real list \<Rightarrow> py_error + real list" where
  "invalid_sphere_solver A b = Inr [0, 0, 0, 1]"

text \<open>
  Four points of the sphere with centre \<open>(1, 2, 3)\<close> and radius \<open>2\<close> that do not lie in a
  plane, and a solver that answers with the parameters of that sphere,
  \<open>k = 1 + 4 + 9 - 4\<close>.
\<close>

definition shifted_sphere_points :: "point list" where
  "shifted_sphere_points = [(3, 2, 3), (1, 4, 3), (1, 2, 5), (-1, 2, 3)]"

definition shifted_sphere_solver :: "real list list \<Rightarrow> real list \<Rightarrow> py_error + real list" where
  "shifted_sphere_solver A b = Inr [1, 2, 3, 10]"

text \<open>The identity transform and two small point sets in the plane.\<close>

definition identity_transform :: "real list \<Rightarrow> real list" where
  "identity_transform p = p"

definition fixed_pair :: "real list list" where
  "fixed_pair = [[0, 0], [3, 0]]"

definition moving_pair :: "real list list" where
  "moving_pair = [[0, 1], [3, 2]]"

definition moving_triple :: "real list list" where
  "moving_triple = [[0, 1], [3, 2], [5, 5]]"

section \<open>Properties of the exploitation step\<close>

lemma SetParameters_twice: "SetParameters (SetParameters tx ps) qs = SetParameters tx qs"
  by (simp add: SetParameters_def)

lemma exploit_loop_results:
  "snd (exploit_loop reg cands tx acc) = acc @ map (\<lambda>c. refine_single reg tx (snd c)) cands"
proof (induction cands arbitrary: tx acc)
  case Nil
  show ?case by simp
next
  case (Cons c cands)
  obtain mv ps where c: "c = (mv, ps)" by (cases c)
  have "refine_single reg (SetParameters tx ps) = refine_single reg tx"
    by (rule ext) (simp add: refine_single_def SetParameters_twice)
  with Cons.IH [of "SetParameters tx ps" "acc @ [reg (SetParameters tx ps)]"] c
  show ?case by (simp add: refine_single_def Let_def)
qed

lemma final_results_of_eq:
  "final_results_of reg tx l = map (\<lambda>c. refine_single reg tx (snd c)) (most_promising l)"
  by (simp add: final_results_of_def exploit_loop_results)

lemma min_key_loop_mem: "min_key_loop key best xs \<in> set (best # xs)"
  by (induction xs arbitrary: best) (auto split: if_splits)

lemma min_key_loop_le_best: "key (min_key_loop key best xs) \<le> key best"
proof (induction xs arbitrary: best)
  case Nil
  show ?case by simp
next
  case (Cons x xs)
  show ?case
  proof (cases "key x < key best")
    case True
    with Cons.IH [of x] show ?thesis by simp
  next
    case False
    with Cons.IH [of best] show ?thesis by simp
  qed
qed

lemma min_key_loop_le: "y \<in> set (best # xs) \<Longrightarrow> key (min_key_loop key best xs) \<le> key y"
proof (induction xs arbitrary: best)
  case Nil
  then show ?case by simp
next
  case (Cons x xs)
  show ?case
  proof (cases "key x < key best")
    case True
    from Cons.prems have "y = best \<or> y \<in> set (x # xs)" by auto
    then show ?thesis
    proof
      assume "y = best"
      with True min_key_loop_le_best [of key x xs] show ?thesis by simp
    next
      assume "y \<in> set (x # xs)"
      with True Cons.IH [of x] show ?thesis by simp
    qed
  next
    case False
    from Cons.prems have "y = x \<or> y \<in> set (best # xs)" by auto
    then show ?thesis
    proof
      assume "y = x"
      with False min_key_loop_le_best [of key best xs] show ?thesis by simp
    next
      assume "y \<in> set (best # xs)"
      with False Cons.IH [of best] show ?thesis by simp
    qed
  qed
qed

lemma py_min_key_Inr:
  assumes "xs \<noteq> []"
  shows "\<exists>b. py_min_key key xs = Inr b \<and> b \<in> set xs \<and> (\<forall>y\<in>set xs. key b \<le> key y)"
proof -
  from assms obtain x rest where xs: "xs = x # rest" by (cases xs) auto
  have "py_min_key key xs = Inr (min_key_loop key x rest)"
    by (simp add: py_min_key_def xs)
  moreover have "min_key_loop key x rest \<in> set xs"
    using min_key_loop_mem [of key x rest] by (simp add: xs)
  moreover have "\<forall>y\<in>set xs. key (min_key_loop key x rest) \<le> key y"
    using min_key_loop_le [of _ x rest key] by (simp add: xs)
  ultimately show ?thesis by blast
qed

lemma py_min_key_empty: "py_min_key key [] = Inl ValueError"
  by (simp add: py_min_key_def)

lemma length_sort_by_metric: "length (sort_by_metric l) = length l"
  by (simp add: sort_by_metric_def)

lemma k_most_promising_sorted: "k_most_promising (sort_by_metric l) = k_most_promising l"
  by (simp add: k_most_promising_def length_sort_by_metric)

lemma length_most_promising: "length (most_promising l) = k_most_promising l"
  by (simp add: most_promising_def k_most_promising_def length_sort_by_metric)

lemma length_final_results_of: "length (final_results_of reg tx l) = k_most_promising l"
  by (simp add: final_results_of_eq length_most_promising)

lemma k_most_promising_pos: "l \<noteq> [] \<Longrightarrow> 1 \<le> k_most_promising l"
  by (cases l) (simp_all add: k_most_promising_def)

lemma sorted_sort_by_metric: "sorted (map fst (sort_by_metric l))"
  by (simp add: sort_by_metric_def)

lemma mset_sort_by_metric: "mset (sort_by_metric l) = mset l"
  by (simp add: sort_by_metric_def)

lemma set_sort_by_metric: "set (sort_by_metric l) = set l"
  by (simp add: sort_by_metric_def)

lemma sorted_take_le_drop:
  assumes "sorted (map f xs)" and "c \<in> set (take k xs)" and "d \<in> set (drop k xs)"
  shows "f c \<le> f d"
proof -
  have "sorted (map f (take k xs) @ map f (drop k xs))"
    using assms(1) by (simp flip: map_append)
  then have "\<forall>x\<in>set (map f (take k xs)). \<forall>y\<in>set (map f (drop k xs)). x \<le> y"
    by (simp add: sorted_append)
  with assms(2,3) show ?thesis by simp
qed

lemma exploitation_best_Inr:
  assumes "l \<noteq> []"
  shows "\<exists>best. exploitation_best reg tx l = Inr best
           \<and> best \<in> set (final_results_of reg tx l)
           \<and> (\<forall>r\<in>set (final_results_of reg tx l). snd best \<le> snd r)"
proof -
  have "length (final_results_of reg tx l) \<noteq> 0"
    using k_most_promising_pos [OF assms] by (simp add: length_final_results_of)
  then have "final_results_of reg tx l \<noteq> []" by simp
  from py_min_key_Inr [OF this, of snd] show ?thesis
    by (simp add: exploitation_best_def)
qed

section \<open>Properties of the exploration cells\<close>

lemma length_fold_pool_step:
  "length (fold (pool_step f xs) schedule slots) = length slots"
  by (induction schedule arbitrary: slots) (simp_all add: pool_step_def)

lemma nth_pool_step:
  assumes "length slots = length xs" and "j < length xs"
  shows "pool_step f xs i slots ! j = (if i = j then run_task f (xs ! j) else slots ! j)"
  using assms by (simp add: pool_step_def)

lemma nth_fold_pool_step:
  assumes "length slots = length xs" and "j < length xs"
  shows "fold (pool_step f xs) schedule slots ! j
           = (if j \<in> set schedule then run_task f (xs ! j) else slots ! j)"
  using assms
proof (induction schedule arbitrary: slots rule: rev_induct)
  case Nil
  show ?case by simp
next
  case (snoc i schedule)
  have len: "length (fold (pool_step f xs) schedule slots) = length xs"
    by (simp add: length_fold_pool_step snoc.prems(1))
  from snoc.IH [OF snoc.prems] show ?case
    by (simp add: nth_pool_step [OF len snoc.prems(2)])
qed

lemma pool_slots_complete:
  assumes "set schedule = {0..<length xs}"
  shows "pool_slots schedule f xs = map (run_task f) xs"
proof (rule nth_equalityI)
  show "length (pool_slots schedule f xs) = length (map (run_task f) xs)"
    by (simp add: pool_slots_def length_fold_pool_step)
next
  fix j assume "j < length (pool_slots schedule f xs)"
  then have j: "j < length xs"
    by (simp add: pool_slots_def length_fold_pool_step)
  with assms have "j \<in> set schedule" by simp
  with j show "pool_slots schedule f xs ! j = map (run_task f) xs ! j"
    by (simp add: pool_slots_def nth_fold_pool_step)
qed

lemma collect_all_returned:
  assumes "\<forall>x\<in>set xs. f x \<noteq> None"
  shows "collect (map (run_task f) xs) = Inr (map (\<lambda>x. the (f x)) xs)"
  using assms by (induction xs) (auto simp: run_task_def)

lemma collect_some_raised:
  assumes "\<exists>x\<in>set xs. f x = None"
  shows "collect (map (run_task f) xs) = Inl RuntimeError"
  using assms
proof (induction xs)
  case Nil
  then show ?case by simp
next
  case (Cons x xs)
  show ?case
  proof (cases "f x")
    case None
    then show ?thesis by (simp add: run_task_def)
  next
    case (Some v)
    with Cons.prems have "\<exists>y\<in>set xs. f y = None" by auto
    from Cons.IH [OF this] Some show ?thesis by (simp add: run_task_def)
  qed
qed

lemma pool_map_all_returned:
  assumes "set schedule = {0..<length xs}" and "\<forall>x\<in>set xs. f x \<noteq> None"
  shows "pool_map schedule f xs = Inr (map (\<lambda>x. the (f x)) xs)"
  by (simp only: pool_map_def pool_slots_complete [OF assms(1)] collect_all_returned [OF assms(2)])

lemma pool_map_some_raised:
  assumes "set schedule = {0..<length xs}" and "\<exists>x\<in>set xs. f x = None"
  shows "pool_map schedule f xs = Inl RuntimeError"
  by (simp only: pool_map_def pool_slots_complete [OF assms(1)] collect_some_raised [OF assms(2)])

lemma sequential_loop_raises:
  assumes "\<exists>c\<in>set cands. evaluate (snd c) = None"
  shows "sequential_loop evaluate cands best = Inl RuntimeError"
  using assms
proof (induction cands arbitrary: best)
  case Nil
  then show ?case by simp
next
  case (Cons c cands)
  obtain key orientation where c: "c = (key, orientation)" by (cases c)
  obtain bo bv where best: "best = (bo, bv)" by (cases best)
  show ?case
  proof (cases "evaluate orientation")
    case None
    then show ?thesis by (simp add: c best)
  next
    case (Some v)
    with Cons.prems c have "\<exists>c\<in>set cands. evaluate (snd c) = None" by auto
    from Cons.IH [OF this] Some show ?thesis by (simp add: c best)
  qed
qed

lemma argmin_loop_bound:
  "best_i < i \<Longrightarrow> argmin_loop vs i best_i best_v < i + length vs"
proof (induction vs arbitrary: i best_i best_v)
  case Nil
  then show ?case by simp
next
  case (Cons v vs)
  have "argmin_loop vs (Suc i) i v < Suc i + length vs"
    by (rule Cons.IH) simp
  moreover have "argmin_loop vs (Suc i) best_i best_v < Suc i + length vs"
    by (rule Cons.IH) (use Cons.prems in simp)
  ultimately show ?case by simp
qed

text \<open>
  The loop invariant shared by the two cells: with \<open>done\<close> the orientations already
  seen, the sequential state holds the orientation at the index that \<open>argmin_loop\<close>
  holds.
\<close>

lemma sequential_loop_argmin:
  assumes "\<forall>c\<in>set cands. evaluate (snd c) \<noteq> None"
    and "best_i < length done" and "done ! best_i = bo"
  shows "\<exists>bv'. sequential_loop evaluate cands (bo, bv)
           = Inr ((done @ map snd cands)
                    ! argmin_loop (map (\<lambda>c. the (evaluate (snd c))) cands) (length done) best_i bv,
                  bv')"
  using assms
proof (induction cands arbitrary: "done" best_i bo bv)
  case Nil
  then show ?case by (simp add: nth_append)
next
  case (Cons c cands)
  obtain key orientation where c: "c = (key, orientation)" by (cases c)
  from Cons.prems(1) c obtain v where v: "evaluate orientation = Some v" by auto
  from Cons.prems(1) have rest: "\<forall>c\<in>set cands. evaluate (snd c) \<noteq> None" by simp
  have app: "(done @ [orientation]) @ map snd cands = done @ map snd (c # cands)"
    by (simp add: c)
  show ?case
  proof (cases "v < bv")
    case True
    have "\<exists>bv'. sequential_loop evaluate cands (orientation, v)
           = Inr (((done @ [orientation]) @ map snd cands)
                    ! argmin_loop (map (\<lambda>c. the (evaluate (snd c))) cands)
                        (length (done @ [orientation])) (length done) v,
                  bv')"
      by (rule Cons.IH [OF rest]) simp_all
    with True v show ?thesis unfolding app by (simp add: c)
  next
    case False
    have "\<exists>bv'. sequential_loop evaluate cands (bo, bv)
           = Inr (((done @ [orientation]) @ map snd cands)
                    ! argmin_loop (map (\<lambda>c. the (evaluate (snd c))) cands)
                        (length (done @ [orientation])) best_i bv,
                  bv')"
      by (rule Cons.IH [OF rest]) (use Cons.prems in \<open>simp_all add: nth_append\<close>)
    with False v show ?thesis unfolding app by (simp add: c)
  qed
qed

lemma parallel_eq_sequential:
  assumes "set schedule = {0..<Suc (length all)}"
  shows "parallel_exploration schedule evaluate all = sequential_exploration evaluate all"
proof -
  have sched: "set schedule = {0..<length (orientations_list all)}"
    using assms by (simp add: orientations_list_def)
  show ?thesis
  proof (cases "\<forall>x\<in>set (orientations_list all). evaluate x \<noteq> None")
    case False
    then have "evaluate (0, 0, 0) = None \<or> (\<exists>c\<in>set all. evaluate (snd c) = None)"
      by (auto simp: orientations_list_def)
    then have "sequential_exploration evaluate all = Inl RuntimeError"
    proof
      assume "evaluate (0, 0, 0) = None"
      then show ?thesis by (simp add: sequential_exploration_def)
    next
      assume "\<exists>c\<in>set all. evaluate (snd c) = None"
      then have "\<And>best. sequential_loop evaluate all best = Inl RuntimeError"
        by (rule sequential_loop_raises)
      then show ?thesis by (simp add: sequential_exploration_def split: option.splits)
    qed
    moreover from False have "\<exists>x\<in>set (orientations_list all). evaluate x = None"
      by simp
    then have "parallel_exploration schedule evaluate all = Inl RuntimeError"
      by (simp add: parallel_exploration_def pool_map_some_raised [OF sched])
    ultimately show ?thesis by simp
  next
    case True
    then obtain v0 where v0: "evaluate (0, 0, 0) = Some v0"
      by (auto simp: orientations_list_def)
    from True have rest: "\<forall>c\<in>set all. evaluate (snd c) \<noteq> None"
      by (simp add: orientations_list_def)
    let ?i = "argmin_loop (map (\<lambda>c. the (evaluate (snd c))) all) 1 0 v0"
    have bound: "?i < length (orientations_list all)"
      using argmin_loop_bound [of 0 1 "map (\<lambda>c. the (evaluate (snd c))) all" v0]
      by (simp add: orientations_list_def)
    from sequential_loop_argmin [OF rest, of 0 "[(0, 0, 0)]" "(0, 0, 0)" v0]
    obtain bv' where "sequential_loop evaluate all ((0, 0, 0), v0)
        = Inr (orientations_list all ! ?i, bv')"
      by (auto simp: orientations_list_def)
    then have seq: "sequential_exploration evaluate all = Inr (orientations_list all ! ?i)"
      by (simp add: sequential_exploration_def v0)
    have "pool_map schedule evaluate (orientations_list all)
        = Inr (map (\<lambda>x. the (evaluate x)) (orientations_list all))"
      by (rule pool_map_all_returned [OF sched True])
    then have "parallel_exploration schedule evaluate all = Inr (orientations_list all ! ?i)"
      using bound
      by (simp add: parallel_exploration_def np_argmin_def orientations_list_def v0 comp_def)
    with seq show ?thesis by simp
  qed
qed

lemma argmin_loop_least:
  assumes "best_i < length pre" and "pre ! best_i = best_v" and "\<forall>x\<in>set pre. best_v \<le> x"
  shows "\<forall>x\<in>set (pre @ vs). (pre @ vs) ! argmin_loop vs (length pre) best_i best_v \<le> x"
  using assms
proof (induction vs arbitrary: pre best_i best_v)
  case Nil
  then show ?case by simp
next
  case (Cons v vs)
  have app: "(pre @ [v]) @ vs = pre @ v # vs" by simp
  show ?case
  proof (cases "v < best_v")
    case True
    have "\<forall>x\<in>set ((pre @ [v]) @ vs).
        ((pre @ [v]) @ vs) ! argmin_loop vs (length (pre @ [v])) (length pre) v \<le> x"
    proof (rule Cons.IH)
      show "length pre < length (pre @ [v])" by simp
      show "(pre @ [v]) ! length pre = v" by simp
      from True Cons.prems(3) show "\<forall>x\<in>set (pre @ [v]). v \<le> x" by auto
    qed
    with True show ?thesis unfolding app by simp
  next
    case False
    have "\<forall>x\<in>set ((pre @ [v]) @ vs).
        ((pre @ [v]) @ vs) ! argmin_loop vs (length (pre @ [v])) best_i best_v \<le> x"
    proof (rule Cons.IH)
      from Cons.prems(1) show "best_i < length (pre @ [v])" by simp
      from Cons.prems(1,2) show "(pre @ [v]) ! best_i = best_v" by (simp add: nth_append)
      from False Cons.prems(3) show "\<forall>x\<in>set (pre @ [v]). best_v \<le> x" by auto
    qed
    with False show ?thesis unfolding app by simp
  qed
qed

lemma np_argmin_least:
  assumes "vs \<noteq> []"
  shows "\<exists>i. np_argmin vs = Inr i \<and> i < length vs \<and> (\<forall>x\<in>set vs. vs ! i \<le> x)"
proof -
  from assms obtain v rest where vs: "vs = v # rest" by (cases vs) auto
  have "argmin_loop rest 1 0 v < 1 + length rest"
    by (rule argmin_loop_bound) simp
  moreover have "\<forall>x\<in>set ([v] @ rest). ([v] @ rest) ! argmin_loop rest (length [v]) 0 v \<le> x"
    by (rule argmin_loop_least) simp_all
  ultimately show ?thesis by (simp add: np_argmin_def vs)
qed

lemma parallel_all_returned:
  assumes "set schedule = {0..<Suc (length all)}"
    and "\<forall>x\<in>set (orientations_list all). evaluate x \<noteq> None"
  shows "\<exists>best. parallel_exploration schedule evaluate all = Inr best
           \<and> best \<in> set (orientations_list all)
           \<and> (\<forall>x\<in>set (orientations_list all). the (evaluate best) \<le> the (evaluate x))"
proof -
  let ?ol = "orientations_list all"
  let ?vs = "map (\<lambda>x. the (evaluate x)) ?ol"
  have sched: "set schedule = {0..<length ?ol}"
    using assms(1) by (simp add: orientations_list_def)
  have pm: "pool_map schedule evaluate ?ol = Inr ?vs"
    by (rule pool_map_all_returned [OF sched assms(2)])
  have "?vs \<noteq> []" by (simp add: orientations_list_def)
  from np_argmin_least [OF this] obtain i where
    i: "np_argmin ?vs = Inr i" "i < length ?ol" "\<forall>x\<in>set ?vs. ?vs ! i \<le> x"
    by auto
  have "parallel_exploration schedule evaluate all = Inr (?ol ! i)"
    by (simp add: parallel_exploration_def pm i(1,2))
  moreover have "?ol ! i \<in> set ?ol"
    using i(2) by (rule nth_mem)
  moreover have "\<forall>x\<in>set ?ol. the (evaluate (?ol ! i)) \<le> the (evaluate x)"
    using i(2,3) by simp
  ultimately show ?thesis by blast
qed

lemma parallel_some_raised:
  assumes "set schedule = {0..<Suc (length all)}"
    and "\<exists>x\<in>set (orientations_list all). evaluate x = None"
  shows "parallel_exploration schedule evaluate all = Inl RuntimeError"
proof -
  have sched: "set schedule = {0..<length (orientations_list all)}"
    using assms(1) by (simp add: orientations_list_def)
  show ?thesis
    by (simp add: parallel_exploration_def pool_map_some_raised [OF sched assms(2)])
qed

section \<open>Properties of the sphere fit\<close>

lemma linalg_norm_sq3: "(linalg_norm [x, y, z])\<^sup>2 = x\<^sup>2 + y\<^sup>2 + z\<^sup>2"
  by (simp add: linalg_norm_def)

lemma assign_row_eq:
  "assign_row row p (A, b) = (A[row := new_row p (A ! row)], b[row := spec_rhs p])"
  by (simp add: assign_row_def new_row_def spec_rhs_def linalg_norm_sq3 split: prod.splits)

lemma fill_system_invariant:
  assumes "length A = M" and "length b = M" and "n + length ps \<le> M"
  shows "length (fst (fill_system (enumerate n ps) (A, b))) = M
    \<and> length (snd (fill_system (enumerate n ps) (A, b))) = M
    \<and> (\<forall>i<M. fst (fill_system (enumerate n ps) (A, b)) ! i
            = (if n \<le> i \<and> i < n + length ps then new_row (ps ! (i - n)) (A ! i) else A ! i)
          \<and> snd (fill_system (enumerate n ps) (A, b)) ! i
            = (if n \<le> i \<and> i < n + length ps then spec_rhs (ps ! (i - n)) else b ! i))"
  using assms
proof (induction ps arbitrary: n A b)
  case Nil
  then show ?case by auto
next
  case (Cons p ps)
  let ?A = "A[n := new_row p (A ! n)]"
  let ?b = "b[n := spec_rhs p]"
  have step: "fill_system (enumerate n (p # ps)) (A, b) = fill_system (enumerate (Suc n) ps) (?A, ?b)"
    by (simp add: assign_row_eq)
  have IH: "length (fst (fill_system (enumerate (Suc n) ps) (?A, ?b))) = M
    \<and> length (snd (fill_system (enumerate (Suc n) ps) (?A, ?b))) = M
    \<and> (\<forall>i<M. fst (fill_system (enumerate (Suc n) ps) (?A, ?b)) ! i
            = (if Suc n \<le> i \<and> i < Suc n + length ps then new_row (ps ! (i - Suc n)) (?A ! i) else ?A ! i)
          \<and> snd (fill_system (enumerate (Suc n) ps) (?A, ?b)) ! i
            = (if Suc n \<le> i \<and> i < Suc n + length ps then spec_rhs (ps ! (i - Suc n)) else ?b ! i))"
    by (rule Cons.IH) (use Cons.prems in simp_all)
  show ?case unfolding step
  proof (intro conjI allI impI)
    from IH show "length (fst (fill_system (enumerate (Suc n) ps) (?A, ?b))) = M" by simp
    from IH show "length (snd (fill_system (enumerate (Suc n) ps) (?A, ?b))) = M" by simp
  next
    fix i assume i: "i < M"
    from Cons.prems have n: "n < length A" "n < length b" by simp_all
    from IH i have fstI: "fst (fill_system (enumerate (Suc n) ps) (?A, ?b)) ! i
            = (if Suc n \<le> i \<and> i < Suc n + length ps then new_row (ps ! (i - Suc n)) (?A ! i) else ?A ! i)"
      by simp
    show "fst (fill_system (enumerate (Suc n) ps) (?A, ?b)) ! i
       = (if n \<le> i \<and> i < n + length (p # ps) then new_row ((p # ps) ! (i - n)) (A ! i) else A ! i)"
      unfolding fstI using n by (auto simp: nth_Cons' nth_list_update)
    from IH i have sndI: "snd (fill_system (enumerate (Suc n) ps) (?A, ?b)) ! i
            = (if Suc n \<le> i \<and> i < Suc n + length ps then spec_rhs (ps ! (i - Suc n)) else ?b ! i)"
      by simp
    show "snd (fill_system (enumerate (Suc n) ps) (?A, ?b)) ! i
       = (if n \<le> i \<and> i < n + length (p # ps) then spec_rhs ((p # ps) ! (i - n)) else b ! i)"
      unfolding sndI using n by (auto simp: nth_Cons' nth_list_update)
  qed
qed

lemma linear_system_eq:
  "linear_system ps = (map spec_row ps, map spec_rhs ps)"
proof -
  let ?M = "length ps"
  let ?A0 = "replicate ?M (replicate 4 (1::real))"
  let ?b0 = "replicate ?M (0::real)"
  have inv: "length (fst (fill_system (enumerate 0 ps) (?A0, ?b0))) = ?M
    \<and> length (snd (fill_system (enumerate 0 ps) (?A0, ?b0))) = ?M
    \<and> (\<forall>i<?M. fst (fill_system (enumerate 0 ps) (?A0, ?b0)) ! i
            = (if 0 \<le> i \<and> i < 0 + length ps then new_row (ps ! (i - 0)) (?A0 ! i) else ?A0 ! i)
          \<and> snd (fill_system (enumerate 0 ps) (?A0, ?b0)) ! i
            = (if 0 \<le> i \<and> i < 0 + length ps then spec_rhs (ps ! (i - 0)) else ?b0 ! i))"
    by (rule fill_system_invariant) simp_all
  have drop: "drop 3 (replicate 4 (1::real)) = [1]"
    by (simp add: numeral_eq_Suc)
  have A: "fst (linear_system ps) = map spec_row ps"
  proof (rule nth_equalityI)
    from inv show "length (fst (linear_system ps)) = length (map spec_row ps)"
      by (simp add: linear_system_def)
  next
    fix i assume "i < length (fst (linear_system ps))"
    with inv have i: "i < ?M" by (simp add: linear_system_def)
    with inv have "fst (linear_system ps) ! i = new_row (ps ! i) (replicate 4 1)"
      by (simp add: linear_system_def)
    with i show "fst (linear_system ps) ! i = map spec_row ps ! i"
      by (simp add: new_row_def spec_row_def drop split: prod.splits)
  qed
  have b: "snd (linear_system ps) = map spec_rhs ps"
  proof (rule nth_equalityI)
    from inv show "length (snd (linear_system ps)) = length (map spec_rhs ps)"
      by (simp add: linear_system_def)
  next
    fix i assume "i < length (snd (linear_system ps))"
    with inv have i: "i < ?M" by (simp add: linear_system_def)
    with inv show "snd (linear_system ps) ! i = map spec_rhs ps ! i"
      by (simp add: linear_system_def)
  qed
  from A b show ?thesis by (simp add: prod_eq_iff)
qed

lemma dot_spec_row:
  "dot (spec_row (x, y, z)) [cx, cy, cz, k] = k - 2 * (x * cx + y * cy + z * cz)"
  by (simp add: dot_def spec_row_def algebra_simps)

lemma residual_linear_system:
  "residual (map spec_row ps) (map spec_rhs ps) [cx, cy, cz, k] = algebraic_cost ps cx cy cz k"
proof (induction ps)
  case Nil
  show ?case by (simp add: residual_def algebraic_cost_def)
next
  case (Cons p ps)
  obtain x y z where p: "p = (x, y, z)" by (cases p)
  have "dot (spec_row p) [cx, cy, cz, k] - spec_rhs p
      = x\<^sup>2 + y\<^sup>2 + z\<^sup>2 - 2 * (x * cx + y * cy + z * cz) + k"
    by (simp add: p dot_spec_row spec_rhs_def)
  with Cons.IH show ?case
    by (simp add: residual_def algebraic_cost_def p)
qed

lemma residual_nonneg: "0 \<le> residual A b x"
  unfolding residual_def by (rule sum_list_nonneg) auto

lemma algebraic_cost_nonneg: "0 \<le> algebraic_cost ps cx cy cz k"
  unfolding algebraic_cost_def by (rule sum_list_nonneg) auto

lemma algebraic_cost_zero:
  assumes "\<forall>p\<in>set ps. case p of (x, y, z) \<Rightarrow> (x - cx)\<^sup>2 + (y - cy)\<^sup>2 + (z - cz)\<^sup>2 = r\<^sup>2"
  shows "algebraic_cost ps cx cy cz (cx\<^sup>2 + cy\<^sup>2 + cz\<^sup>2 - r\<^sup>2) = 0"
  using assms
proof (induction ps)
  case Nil
  show ?case by (simp add: algebraic_cost_def)
next
  case (Cons p ps)
  obtain x y z where p: "p = (x, y, z)" by (cases p)
  from Cons.prems p have "(x - cx)\<^sup>2 + (y - cy)\<^sup>2 + (z - cz)\<^sup>2 = r\<^sup>2" by simp
  then have "x\<^sup>2 + y\<^sup>2 + z\<^sup>2 - 2 * (x * cx + y * cy + z * cz) + (cx\<^sup>2 + cy\<^sup>2 + cz\<^sup>2 - r\<^sup>2) = 0"
    by (simp add: power2_eq_square algebra_simps)
  moreover from Cons have "algebraic_cost ps cx cy cz (cx\<^sup>2 + cy\<^sup>2 + cz\<^sup>2 - r\<^sup>2) = 0" by simp
  ultimately show ?case by (simp add: algebraic_cost_def p)
qed

lemma list4:
  assumes "length (u :: 'a list) = 4"
  obtains a b c d where "u = [a, b, c, d]"
proof -
  from assms obtain a u1 where u: "u = a # u1" and l1: "length u1 = 3"
    by (cases u) auto
  from l1 obtain b u2 where u1: "u1 = b # u2" and l2: "length u2 = 2"
    by (cases u1) auto
  from l2 obtain c u3 where u2: "u2 = c # u3" and l3: "length u3 = 1"
    by (cases u2) auto
  from l3 obtain d where u3: "u3 = [d]"
    by (cases u3) auto
  from u u1 u2 u3 that show ?thesis by simp
qed

lemma sphere_from_solution4:
  "sphere_from_solution [cx, cy, cz, k]
     = Inr \<lparr>location = [cx, cy, cz], radius = np_sqrt (cx\<^sup>2 + cy\<^sup>2 + cz\<^sup>2 - k)\<rparr>"
  by (simp add: sphere_from_solution_def linalg_norm_sq3)

lemma least_squares_minimises_cost:
  assumes "least_squares_solution (map spec_row ps) (map spec_rhs ps) [cx, cy, cz, k]"
  shows "algebraic_cost ps cx cy cz k \<le> algebraic_cost ps cx' cy' cz' k'"
proof -
  from assms have "residual (map spec_row ps) (map spec_rhs ps) [cx, cy, cz, k]
      \<le> residual (map spec_row ps) (map spec_rhs ps) [cx', cy', cz', k']"
    by (simp add: least_squares_solution_def)
  then show ?thesis by (simp add: residual_linear_system)
qed

text \<open>The cost as a function of \<open>k\<close> alone, the centre held fixed.\<close>

lemma algebraic_cost_shift:
  "algebraic_cost ps cx cy cz (k + t)
     = algebraic_cost ps cx cy cz k
       + 2 * t * (\<Sum>(x, y, z)\<leftarrow>ps. x\<^sup>2 + y\<^sup>2 + z\<^sup>2 - 2 * (x * cx + y * cy + z * cz) + k)
       + real (length ps) * t\<^sup>2"
proof (induction ps)
  case Nil
  show ?case by (simp add: algebraic_cost_def)
next
  case (Cons p ps)
  obtain x y z where p: "p = (x, y, z)" by (cases p)
  from Cons.IH show ?case
    by (simp add: algebraic_cost_def p power2_eq_square algebra_simps)
qed

lemma sum_sq_dist:
  "(\<Sum>(x, y, z)\<leftarrow>ps. (x - cx)\<^sup>2 + (y - cy)\<^sup>2 + (z - cz)\<^sup>2)
     = (\<Sum>(x, y, z)\<leftarrow>ps. x\<^sup>2 + y\<^sup>2 + z\<^sup>2 - 2 * (x * cx + y * cy + z * cz) + k)
       + real (length ps) * (cx\<^sup>2 + cy\<^sup>2 + cz\<^sup>2 - k)"
proof (induction ps)
  case Nil
  show ?case by simp
next
  case (Cons p ps)
  obtain x y z where p: "p = (x, y, z)" by (cases p)
  from Cons.IH show ?case
    by (simp add: p power2_eq_square algebra_simps)
qed

text \<open>
  For an exact least-squares solution the implied squared radius is the mean squared
  distance of the points to the centre, hence never negative.
\<close>

lemma least_squares_radius_real:
  assumes ls: "least_squares_solution (map spec_row ps) (map spec_rhs ps) [cx, cy, cz, k]"
    and ne: "ps \<noteq> []"
  shows "real (length ps) * (cx\<^sup>2 + cy\<^sup>2 + cz\<^sup>2 - k)
           = (\<Sum>(x, y, z)\<leftarrow>ps. (x - cx)\<^sup>2 + (y - cy)\<^sup>2 + (z - cz)\<^sup>2)"
    and "0 \<le> cx\<^sup>2 + cy\<^sup>2 + cz\<^sup>2 - k"
proof -
  let ?m = "real (length ps)"
  let ?S = "\<Sum>(x, y, z)\<leftarrow>ps. x\<^sup>2 + y\<^sup>2 + z\<^sup>2 - 2 * (x * cx + y * cy + z * cz) + k"
  from ne have m: "0 < ?m" by simp
  define t where "t = - ?S / ?m"
  have "algebraic_cost ps cx cy cz k \<le> algebraic_cost ps cx cy cz (k + t)"
    by (rule least_squares_minimises_cost [OF ls])
  with algebraic_cost_shift [of ps cx cy cz k t]
  have "0 \<le> 2 * t * ?S + ?m * t\<^sup>2" by linarith
  also have "2 * t * ?S + ?m * t\<^sup>2 = - (?S\<^sup>2 / ?m)"
    using m by (simp add: t_def power2_eq_square field_simps)
  finally have "?S\<^sup>2 / ?m \<le> 0" by simp
  with m have "?S\<^sup>2 \<le> 0" by (simp add: divide_le_0_iff)
  then have S: "?S = 0" by simp
  from sum_sq_dist [of cx cy cz ps k] S
  show eq: "?m * (cx\<^sup>2 + cy\<^sup>2 + cz\<^sup>2 - k)
           = (\<Sum>(x, y, z)\<leftarrow>ps. (x - cx)\<^sup>2 + (y - cy)\<^sup>2 + (z - cz)\<^sup>2)"
    by simp
  have "0 \<le> (\<Sum>(x, y, z)\<leftarrow>ps. (x - cx)\<^sup>2 + (y - cy)\<^sup>2 + (z - cz)\<^sup>2)"
    by (rule sum_list_nonneg) auto
  with eq have "0 \<le> ?m * (cx\<^sup>2 + cy\<^sup>2 + cz\<^sup>2 - k)" by simp
  with m show "0 \<le> cx\<^sup>2 + cy\<^sup>2 + cz\<^sup>2 - k"
    by (simp add: zero_le_mult_iff)
qed

section \<open>Properties of the summary statistics\<close>

lemma minimum_eq_Min:
  assumes "ds \<noteq> []"
  shows "minimum ds = Min (set ds)"
proof -
  from assms obtain d rest where ds: "ds = d # rest" by (cases ds) auto
  show ?thesis unfolding ds by (simp only: minimum.simps Min.set_eq_fold)
qed

lemma maximum_eq_Max:
  assumes "ds \<noteq> []"
  shows "maximum ds = Max (set ds)"
proof -
  from assms obtain d rest where ds: "ds = d # rest" by (cases ds) auto
  show ?thesis unfolding ds by (simp only: maximum.simps Max.set_eq_fold)
qed

lemma mean_times_length: "ds \<noteq> [] \<Longrightarrow> mean ds * real (length ds) = sum_list ds"
  by (simp add: mean_def)

lemma mean_squares_nonneg: "0 \<le> mean (map (\<lambda>d. (d - m)\<^sup>2) ds)"
  unfolding mean_def by (rule divide_nonneg_nonneg, rule sum_list_nonneg) auto

lemma std_nonneg: "0 \<le> std ds"
  by (simp add: std_def mean_squares_nonneg)

lemma std_squared:
  assumes "ds \<noteq> []"
  shows "(std ds)\<^sup>2 * real (length ds) = (\<Sum>d\<leftarrow>ds. (d - mean ds)\<^sup>2)"
proof -
  have "(std ds)\<^sup>2 = mean (map (\<lambda>d. (d - mean ds)\<^sup>2) ds)"
    by (simp add: std_def mean_squares_nonneg)
  with mean_times_length [of "map (\<lambda>d. (d - mean ds)\<^sup>2) ds"] assms
  show ?thesis by simp
qed

lemma euclidean_distance_nonneg: "0 \<le> euclidean_distance p q"
  unfolding euclidean_distance_def linalg_norm_def
  by (rule real_sqrt_ge_zero, rule sum_list_nonneg) auto

section \<open>Claims about the exploitation step\<close>

text \<open>
  C6. The exploitation step sorts the collected (metric value, parameters) pairs ascending
  by metric value (a permutation of the collected list), takes the first
  \<open>k_most_promising\<close> of them, which are the lowest-cost ones (none of them costs more
  than a candidate left out), runs the registration from exactly these, once each and in
  that order, and returns a refined result whose final metric value is the smallest among
  the refined results.
\<close>

theorem exploitation_refines_k_best:
  assumes "l \<noteq> []"
  shows "sorted (map fst (sort_by_metric l)) \<and> mset (sort_by_metric l) = mset l
    \<and> most_promising l = take (k_most_promising l) (sort_by_metric l)
    \<and> (\<forall>c\<in>set (most_promising l).
          \<forall>d\<in>set (drop (k_most_promising l) (sort_by_metric l)). fst c \<le> fst d)
    \<and> final_results_of reg tx l = map (\<lambda>c. refine_single reg tx (snd c)) (most_promising l)
    \<and> (\<exists>best. exploitation_best reg tx l = Inr best
          \<and> exploitation reg tx l = Inr (fst best)
          \<and> best \<in> set (final_results_of reg tx l)
          \<and> (\<forall>r\<in>set (final_results_of reg tx l). snd best \<le> snd r))"
proof -
  have slice: "most_promising l = take (k_most_promising l) (sort_by_metric l)"
    by (simp add: most_promising_def k_most_promising_sorted)
  have lowest: "\<forall>c\<in>set (most_promising l).
      \<forall>d\<in>set (drop (k_most_promising l) (sort_by_metric l)). fst c \<le> fst d"
    using sorted_take_le_drop [OF sorted_sort_by_metric [of l], of _ "k_most_promising l"]
    by (simp add: slice)
  from exploitation_best_Inr [OF assms, of reg tx] obtain best where
    best: "exploitation_best reg tx l = Inr best"
      "best \<in> set (final_results_of reg tx l)"
      "\<forall>r\<in>set (final_results_of reg tx l). snd best \<le> snd r"
    by blast
  have "exploitation reg tx l = Inr (fst best)"
    by (simp add: exploitation_def best(1) split: prod.splits)
  with best have "\<exists>best. exploitation_best reg tx l = Inr best
          \<and> exploitation reg tx l = Inr (fst best)
          \<and> best \<in> set (final_results_of reg tx l)
          \<and> (\<forall>r\<in>set (final_results_of reg tx l). snd best \<le> snd r)"
    by blast
  with slice lowest show ?thesis
    by (simp add: sorted_sort_by_metric mset_sort_by_metric final_results_of_eq)
qed

theorem exploitation_refines_k_best_witness:
  "five_candidates \<noteq> []
    \<and> sort_by_metric five_candidates = [(0, [9]), (1, [5]), (1, [7]), (2, [1]), (3, [0])]
    \<and> most_promising five_candidates = [(0, [9]), (1, [5]), (1, [7])]
    \<and> final_results_of toy_registration toy_transform five_candidates
         = [([9], 9), ([5], 5), ([7], 7)]
    \<and> (\<exists>best. exploitation_best toy_registration toy_transform five_candidates = Inr best
          \<and> exploitation toy_registration toy_transform five_candidates = Inr (fst best)
          \<and> best \<in> set (final_results_of toy_registration toy_transform five_candidates)
          \<and> (\<forall>r\<in>set (final_results_of toy_registration toy_transform five_candidates).
                snd best \<le> snd r))"
proof -
  have ne: "five_candidates \<noteq> []"
    by (simp add: five_candidates_def)
  have srt: "sort_by_metric five_candidates = [(0, [9]), (1, [5]), (1, [7]), (2, [1]), (3, [0])]"
    by (simp add: five_candidates_def sort_by_metric_def)
  have mp: "most_promising five_candidates = [(0, [9]), (1, [5]), (1, [7])]"
    by (simp add: most_promising_def srt k_most_promising_def)
  have fr: "final_results_of toy_registration toy_transform five_candidates
         = [([9], 9), ([5], 5), ([7], 7)]"
    by (simp add: final_results_of_eq mp refine_single_def toy_registration_def
        toy_transform_def SetParameters_def)
  from exploitation_refines_k_best [OF ne, of toy_registration toy_transform] ne srt mp fr
  show ?thesis by blast
qed

text \<open>
  C7. When \<open>k_most_promising\<close> equals the number of collected candidates, the final
  metric value of the selected result is at most the final metric value that refining
  any single collected candidate on its own gives, whatever the registration function is.
\<close>

theorem exploitation_all_candidates_best:
  assumes "l \<noteq> []" and "k_most_promising l = length l"
  shows "\<exists>best. exploitation_best reg tx l = Inr best
           \<and> (\<forall>c\<in>set l. snd best \<le> snd (refine_single reg tx (snd c)))"
proof -
  have "most_promising l = sort_by_metric l"
    by (simp add: most_promising_def k_most_promising_sorted assms(2) length_sort_by_metric)
  then have results: "set (final_results_of reg tx l) = (\<lambda>c. refine_single reg tx (snd c)) ` set l"
    by (simp add: final_results_of_eq set_sort_by_metric)
  from exploitation_best_Inr [OF assms(1), of reg tx] obtain best where
    best: "exploitation_best reg tx l = Inr best"
      "\<forall>r\<in>set (final_results_of reg tx l). snd best \<le> snd r"
    by blast
  from best(2) results have "\<forall>c\<in>set l. snd best \<le> snd (refine_single reg tx (snd c))"
    by simp
  with best(1) show ?thesis by blast
qed

theorem exploitation_all_candidates_best_witness:
  "three_candidates \<noteq> [] \<and> k_most_promising three_candidates = length three_candidates
    \<and> (\<exists>best. exploitation_best toy_registration toy_transform three_candidates = Inr best
          \<and> (\<forall>c\<in>set three_candidates.
                snd best \<le> snd (refine_single toy_registration toy_transform (snd c))))"
proof -
  have ne: "three_candidates \<noteq> []"
    by (simp add: three_candidates_def)
  have k: "k_most_promising three_candidates = length three_candidates"
    by (simp add: three_candidates_def k_most_promising_def)
  from exploitation_all_candidates_best [OF ne k, of toy_registration toy_transform] ne k
  show ?thesis by blast
qed

text \<open>
  C10. The number of candidates refined is \<open>min 3 n\<close> for \<open>n\<close> collected candidates.
  For a non-empty collection it is at least one and at most \<open>n\<close>, the slice of the
  best candidates is non-empty and has that length, as many refinements run, and the
  final minimum exists: the cell ends with a result and not with the \<open>ValueError\<close> of
  a minimum over an empty list.
\<close>

theorem exploitation_slice_well_defined:
  assumes "l \<noteq> []"
  shows "k_most_promising l = min 3 (length l)
    \<and> 1 \<le> k_most_promising l \<and> k_most_promising l \<le> length l
    \<and> most_promising l \<noteq> [] \<and> length (most_promising l) = k_most_promising l
    \<and> length (final_results_of reg tx l) = k_most_promising l
    \<and> (\<exists>best. exploitation_best reg tx l = Inr best)
    \<and> (\<exists>final_transform. exploitation reg tx l = Inr final_transform)"
proof -
  have k: "k_most_promising l = min 3 (length l)"
    by (simp add: k_most_promising_def)
  have pos: "1 \<le> k_most_promising l"
    by (rule k_most_promising_pos [OF assms])
  have le: "k_most_promising l \<le> length l"
    by (simp add: k_most_promising_def)
  have len: "length (most_promising l) = k_most_promising l"
    by (rule length_most_promising)
  from pos len have ne: "most_promising l \<noteq> []" by auto
  from exploitation_best_Inr [OF assms, of reg tx] obtain best where
    best: "exploitation_best reg tx l = Inr best" by blast
  then have "exploitation reg tx l = Inr (fst best)"
    by (simp add: exploitation_def split: prod.splits)
  with best k pos le len ne show ?thesis
    by (simp add: length_final_results_of)
qed

theorem exploitation_slice_well_defined_witness:
  "two_candidates \<noteq> [] \<and> k_most_promising two_candidates = 2
    \<and> most_promising two_candidates = [(1, [5]), (2, [4])]
    \<and> length (final_results_of toy_registration toy_transform two_candidates) = 2
    \<and> (\<exists>best. exploitation_best toy_registration toy_transform two_candidates = Inr best)
    \<and> (\<exists>final_transform.
          exploitation toy_registration toy_transform two_candidates = Inr final_transform)"
proof -
  have ne: "two_candidates \<noteq> []"
    by (simp add: two_candidates_def)
  have k: "k_most_promising two_candidates = 2"
    by (simp add: two_candidates_def k_most_promising_def)
  have mp: "most_promising two_candidates = [(1, [5]), (2, [4])]"
    by (simp add: most_promising_def sort_by_metric_def two_candidates_def k_most_promising_def)
  from exploitation_slice_well_defined [OF ne, of toy_registration toy_transform] ne k mp
  show ?thesis by simp
qed

section \<open>Claims about the exploration cells\<close>

text \<open>
  C9. For every pure metric evaluation and every order in which the pool executes the
  evaluations (every schedule that runs each task), the parallel cell (map, then the
  argmin of the collected values) selects the orientation that the sequential loop
  selects, the one that keeps a value only when it is strictly smaller; that orientation
  is one of the candidates and none of them has a smaller metric value.
\<close>

theorem parallel_exploration_refines_sequential:
  assumes "set schedule = {0..<Suc (length all)}"
  shows "parallel_exploration schedule (pure_evaluate metric) all
           = sequential_exploration (pure_evaluate metric) all
    \<and> (\<exists>best. sequential_exploration (pure_evaluate metric) all = Inr best
          \<and> best \<in> set (orientations_list all)
          \<and> (\<forall>x\<in>set (orientations_list all). metric best \<le> metric x))"
proof -
  have eq: "parallel_exploration schedule (pure_evaluate metric) all
           = sequential_exploration (pure_evaluate metric) all"
    by (rule parallel_eq_sequential [OF assms])
  have "\<forall>x\<in>set (orientations_list all). pure_evaluate metric x \<noteq> None"
    by (simp add: pure_evaluate_def)
  from parallel_all_returned [OF assms this] obtain best where
    best: "parallel_exploration schedule (pure_evaluate metric) all = Inr best"
      "best \<in> set (orientations_list all)"
      "\<forall>x\<in>set (orientations_list all).
         the (pure_evaluate metric best) \<le> the (pure_evaluate metric x)"
    by blast
  from best(3) have "\<forall>x\<in>set (orientations_list all). metric best \<le> metric x"
    by (simp add: pure_evaluate_def)
  with best(1,2) eq show ?thesis by auto
qed

theorem parallel_exploration_refines_sequential_witness:
  "set [2, 0, 3, 1] = {0..<Suc (length all_orientations)}
    \<and> parallel_exploration [2, 0, 3, 1] (pure_evaluate toy_metric) all_orientations
        = sequential_exploration (pure_evaluate toy_metric) all_orientations
    \<and> sequential_exploration (pure_evaluate toy_metric) all_orientations = Inr (0, 0, pi)
    \<and> (\<exists>best. sequential_exploration (pure_evaluate toy_metric) all_orientations = Inr best
          \<and> best \<in> set (orientations_list all_orientations)
          \<and> (\<forall>x\<in>set (orientations_list all_orientations). toy_metric best \<le> toy_metric x))"
proof -
  have sched: "set [2, 0, 3, 1] = {0..<Suc (length all_orientations)}"
    by (auto simp: all_orientations_def)
  have seq: "sequential_exploration (pure_evaluate toy_metric) all_orientations = Inr (0, 0, pi)"
    by (simp add: sequential_exploration_def all_orientations_def toy_metric_def pure_evaluate_def)
  from parallel_exploration_refines_sequential [OF sched, of toy_metric] sched seq
  show ?thesis by simp
qed

text \<open>
  C8, as the code has it. Neither exploration cell catches an exception. If the metric
  evaluation of any one candidate raises, the exception leaves \<open>p.map\<close> (and the
  sequential loop) and the whole exploration ends with that error: no list of metric
  values, no ranking and no best orientation is produced. When every evaluation succeeds,
  every candidate takes part in the ranking: the selected orientation has the smallest
  metric value of them all.
\<close>

theorem exploration_failure_aborts_batch:
  assumes "set schedule = {0..<Suc (length all)}"
  shows "((\<exists>x\<in>set (orientations_list all). evaluate x = None) \<longrightarrow>
            parallel_exploration schedule evaluate all = Inl RuntimeError
          \<and> sequential_exploration evaluate all = Inl RuntimeError)
    \<and> ((\<forall>x\<in>set (orientations_list all). evaluate x \<noteq> None) \<longrightarrow>
          (\<exists>best. parallel_exploration schedule evaluate all = Inr best
             \<and> best \<in> set (orientations_list all)
             \<and> (\<forall>x\<in>set (orientations_list all). the (evaluate best) \<le> the (evaluate x))))"
proof (intro conjI impI)
  assume raised: "\<exists>x\<in>set (orientations_list all). evaluate x = None"
  show "parallel_exploration schedule evaluate all = Inl RuntimeError"
    by (rule parallel_some_raised [OF assms raised])
  then show "sequential_exploration evaluate all = Inl RuntimeError"
    by (simp add: parallel_eq_sequential [OF assms])
next
  assume "\<forall>x\<in>set (orientations_list all). evaluate x \<noteq> None"
  then show "\<exists>best. parallel_exploration schedule evaluate all = Inr best
             \<and> best \<in> set (orientations_list all)
             \<and> (\<forall>x\<in>set (orientations_list all). the (evaluate best) \<le> the (evaluate x))"
    by (rule parallel_all_returned [OF assms])
qed

theorem exploration_failure_aborts_batch_witness:
  "set [0, 1, 2, 3] = {0..<Suc (length all_orientations)}
    \<and> orientations_list all_orientations = [(0, 0, 0), (0, 0, pi), (0, pi, 0), (0, pi, pi)]
    \<and> metric_failing_at_z180 (0, 0, pi) = None
    \<and> parallel_exploration [0, 1, 2, 3] metric_failing_at_z180 all_orientations = Inl RuntimeError
    \<and> sequential_exploration metric_failing_at_z180 all_orientations = Inl RuntimeError
    \<and> map (pure_evaluate toy_metric) (orientations_list all_orientations)
          = [Some 5, Some 2, Some 2, Some 7]
    \<and> (\<exists>best. parallel_exploration [0, 1, 2, 3] (pure_evaluate toy_metric) all_orientations = Inr best
          \<and> best \<in> set (orientations_list all_orientations)
          \<and> (\<forall>x\<in>set (orientations_list all_orientations).
                the (pure_evaluate toy_metric best) \<le> the (pure_evaluate toy_metric x)))"
proof -
  have sched: "set [0, 1, 2, 3] = {0..<Suc (length all_orientations)}"
    by (auto simp: all_orientations_def)
  have ol: "orientations_list all_orientations = [(0, 0, 0), (0, 0, pi), (0, pi, 0), (0, pi, pi)]"
    by (simp add: orientations_list_def all_orientations_def)
  have none: "metric_failing_at_z180 (0, 0, pi) = None"
    by (simp add: metric_failing_at_z180_def)
  then have raised: "\<exists>x\<in>set (orientations_list all_orientations). metric_failing_at_z180 x = None"
    by (simp add: ol)
  have vals: "map (pure_evaluate toy_metric) (orientations_list all_orientations)
          = [Some 5, Some 2, Some 2, Some 7]"
    by (simp add: ol pure_evaluate_def toy_metric_def)
  have returned: "\<forall>x\<in>set (orientations_list all_orientations). pure_evaluate toy_metric x \<noteq> None"
    by (simp add: pure_evaluate_def)
  from exploration_failure_aborts_batch [OF sched, of metric_failing_at_z180]
    exploration_failure_aborts_batch [OF sched, of "pure_evaluate toy_metric"]
    sched ol none raised vals returned
  show ?thesis by blast
qed

text \<open>
  C8, as the spec states it, fails: the evaluation raises at the rotation by 180 degrees
  about z only, the three other candidates evaluate to 5, 7 and 7, and the exploration
  ends with the error instead of ranking these three.
\<close>

theorem exploration_failure_not_isolated:
  "metric_failing_at_z180 (0, 0, pi) = None
    \<and> metric_failing_at_z180 (0, 0, 0) = Some 5
    \<and> metric_failing_at_z180 (0, pi, 0) = Some 7
    \<and> metric_failing_at_z180 (0, pi, pi) = Some 7
    \<and> orientations_list all_orientations = [(0, 0, 0), (0, 0, pi), (0, pi, 0), (0, pi, pi)]
    \<and> parallel_exploration [0, 1, 2, 3] metric_failing_at_z180 all_orientations = Inl RuntimeError
    \<and> sequential_exploration metric_failing_at_z180 all_orientations = Inl RuntimeError"
  by (simp add: parallel_exploration_def pool_map_def pool_slots_def pool_step_def run_task_def
      orientations_list_def all_orientations_def metric_failing_at_z180_def
      sequential_exploration_def)

section \<open>Claims about the sphere fit\<close>

text \<open>
  C2. For at least four points the cell builds the system whose row \<open>i\<close> is
  \<open>[-2 p\<^sub>i, 1]\<close> and whose right-hand side entry \<open>i\<close> is \<open>-\<parallel>p\<^sub>i\<parallel>\<^sup>2\<close>, hands it to the
  least-squares solver, and from the solution \<open>[cx, cy, cz, k]\<close> reports the first three
  components as the centre and \<open>np.sqrt(\<parallel>c\<parallel>\<^sup>2 - k)\<close> as the radius, the real root when
  \<open>k \<le> \<parallel>c\<parallel>\<^sup>2\<close>. A solution that satisfies the solver's contract minimises the sum of
  the squared algebraic distances.
\<close>

theorem sphere_fit_linear_system:
  assumes "4 \<le> length ps"
  shows "length (system_matrix ps) = length ps \<and> length (system_rhs ps) = length ps
    \<and> (\<forall>i<length ps. system_matrix ps ! i = spec_row (ps ! i)
                      \<and> system_rhs ps ! i = spec_rhs (ps ! i))
    \<and> (\<forall>cx cy cz k. lstsq (system_matrix ps) (system_rhs ps) = Inr [cx, cy, cz, k] \<longrightarrow>
          fit_sphere_least_squares lstsq ps
            = Inr \<lparr>location = [cx, cy, cz], radius = np_sqrt (cx\<^sup>2 + cy\<^sup>2 + cz\<^sup>2 - k)\<rparr>
          \<and> (k \<le> cx\<^sup>2 + cy\<^sup>2 + cz\<^sup>2 \<longrightarrow>
                np_sqrt (cx\<^sup>2 + cy\<^sup>2 + cz\<^sup>2 - k) = Num (sqrt (cx\<^sup>2 + cy\<^sup>2 + cz\<^sup>2 - k)))
          \<and> (least_squares_solution (system_matrix ps) (system_rhs ps) [cx, cy, cz, k] \<longrightarrow>
                (\<forall>cx' cy' cz' k'.
                   algebraic_cost ps cx cy cz k \<le> algebraic_cost ps cx' cy' cz' k')))"
proof -
  have A: "system_matrix ps = map spec_row ps" and b: "system_rhs ps = map spec_rhs ps"
    by (simp_all add: system_matrix_def system_rhs_def linear_system_eq)
  have fit: "fit_sphere_least_squares lstsq ps
            = Inr \<lparr>location = [cx, cy, cz], radius = np_sqrt (cx\<^sup>2 + cy\<^sup>2 + cz\<^sup>2 - k)\<rparr>"
    if "lstsq (system_matrix ps) (system_rhs ps) = Inr [cx, cy, cz, k]" for cx cy cz k
    using that by (simp add: fit_sphere_least_squares_def sphere_from_solution4)
  have root: "np_sqrt (cx\<^sup>2 + cy\<^sup>2 + cz\<^sup>2 - k) = Num (sqrt (cx\<^sup>2 + cy\<^sup>2 + cz\<^sup>2 - k))"
    if "k \<le> cx\<^sup>2 + cy\<^sup>2 + cz\<^sup>2" for cx cy cz k :: real
    using that by (simp add: np_sqrt_def)
  have cost: "algebraic_cost ps cx cy cz k \<le> algebraic_cost ps cx' cy' cz' k'"
    if "least_squares_solution (system_matrix ps) (system_rhs ps) [cx, cy, cz, k]"
    for cx cy cz k cx' cy' cz' k'
    using that unfolding A b by (rule least_squares_minimises_cost)
  have rows: "\<forall>i<length ps. system_matrix ps ! i = spec_row (ps ! i)
                      \<and> system_rhs ps ! i = spec_rhs (ps ! i)"
    by (simp add: A b)
  have len: "length (system_matrix ps) = length ps \<and> length (system_rhs ps) = length ps"
    by (simp add: A b)
  from len rows fit root cost show ?thesis by blast
qed

theorem sphere_fit_linear_system_witness:
  "4 \<le> length unit_sphere_points
    \<and> system_matrix unit_sphere_points = [[-2, 0, 0, 1], [0, -2, 0, 1], [0, 0, -2, 1], [2, 0, 0, 1]]
    \<and> system_rhs unit_sphere_points = [-1, -1, -1, -1]
    \<and> unit_sphere_solver (system_matrix unit_sphere_points) (system_rhs unit_sphere_points)
        = Inr [0, 0, 0, -1]
    \<and> fit_sphere_least_squares unit_sphere_solver unit_sphere_points
        = Inr \<lparr>location = [0, 0, 0], radius = Num 1\<rparr>"
proof -
  have len: "4 \<le> length unit_sphere_points"
    by (simp add: unit_sphere_points_def)
  have sys: "linear_system unit_sphere_points
      = ([[-2, 0, 0, 1], [0, -2, 0, 1], [0, 0, -2, 1], [2, 0, 0, 1]], [-1, -1, -1, -1])"
    by (simp add: linear_system_def unit_sphere_points_def assign_row_def linalg_norm_sq3
        enumerate_eq_zip upt_rec)
  have solver: "unit_sphere_solver (system_matrix unit_sphere_points)
      (system_rhs unit_sphere_points) = Inr [0, 0, 0, -1]"
    by (simp add: unit_sphere_solver_def)
  from sphere_fit_linear_system [OF len, of unit_sphere_solver] solver
  have "fit_sphere_least_squares unit_sphere_solver unit_sphere_points
      = Inr \<lparr>location = [0, 0, 0], radius = np_sqrt (0\<^sup>2 + 0\<^sup>2 + 0\<^sup>2 - (-1))\<rparr>"
    by blast
  then have "fit_sphere_least_squares unit_sphere_solver unit_sphere_points
      = Inr \<lparr>location = [0, 0, 0], radius = Num 1\<rparr>"
    by (simp add: np_sqrt_def)
  with len sys solver show ?thesis
    by (simp add: system_matrix_def system_rhs_def)
qed

text \<open>
  C3. For at least four points that lie exactly on the sphere with centre \<open>(cx, cy, cz)\<close>
  and radius \<open>r\<close>, in a configuration for which the least-squares system has only one
  solution, and a solver that returns a least-squares solution, the fit reports exactly
  that centre and that radius (in exact arithmetic).
\<close>

theorem sphere_fit_exact_recovery:
  assumes "4 \<le> length ps"
    and "\<forall>p\<in>set ps. case p of (x, y, z) \<Rightarrow> (x - cx)\<^sup>2 + (y - cy)\<^sup>2 + (z - cz)\<^sup>2 = r\<^sup>2"
    and "0 \<le> r"
    and "\<exists>res. lstsq (system_matrix ps) (system_rhs ps) = Inr res
           \<and> least_squares_solution (system_matrix ps) (system_rhs ps) res"
    and "\<forall>u v. least_squares_solution (system_matrix ps) (system_rhs ps) u
           \<and> least_squares_solution (system_matrix ps) (system_rhs ps) v \<longrightarrow> u = v"
  shows "fit_sphere_least_squares lstsq ps = Inr \<lparr>location = [cx, cy, cz], radius = Num r\<rparr>"
proof -
  have A: "system_matrix ps = map spec_row ps" and b: "system_rhs ps = map spec_rhs ps"
    by (simp_all add: system_matrix_def system_rhs_def linear_system_eq)
  let ?k = "cx\<^sup>2 + cy\<^sup>2 + cz\<^sup>2 - r\<^sup>2"
  have zero: "residual (system_matrix ps) (system_rhs ps) [cx, cy, cz, ?k] = 0"
    unfolding A b residual_linear_system by (rule algebraic_cost_zero [OF assms(2)])
  have exact: "least_squares_solution (system_matrix ps) (system_rhs ps) [cx, cy, cz, ?k]"
    unfolding least_squares_solution_def using zero residual_nonneg by simp
  from assms(4) obtain res where
    res: "lstsq (system_matrix ps) (system_rhs ps) = Inr res"
      "least_squares_solution (system_matrix ps) (system_rhs ps) res"
    by blast
  from assms(5) res(2) exact have "res = [cx, cy, cz, ?k]" by blast
  with res(1) have "fit_sphere_least_squares lstsq ps
      = Inr \<lparr>location = [cx, cy, cz], radius = np_sqrt (cx\<^sup>2 + cy\<^sup>2 + cz\<^sup>2 - ?k)\<rparr>"
    by (simp add: fit_sphere_least_squares_def sphere_from_solution4)
  moreover from assms(3) have "np_sqrt (cx\<^sup>2 + cy\<^sup>2 + cz\<^sup>2 - ?k) = Num r"
    by (simp add: np_sqrt_def)
  ultimately show ?thesis by simp
qed

theorem sphere_fit_exact_recovery_witness:
  "4 \<le> length shifted_sphere_points
    \<and> system_matrix shifted_sphere_points
        = [[-6, -4, -6, 1], [-2, -8, -6, 1], [-2, -4, -10, 1], [2, -4, -6, 1]]
    \<and> system_rhs shifted_sphere_points = [-22, -26, -30, -14]
    \<and> fit_sphere_least_squares shifted_sphere_solver shifted_sphere_points
        = Inr \<lparr>location = [1, 2, 3], radius = Num 2\<rparr>"
proof -
  let ?A = "system_matrix shifted_sphere_points"
  let ?b = "system_rhs shifted_sphere_points"
  have len: "4 \<le> length shifted_sphere_points"
    by (simp add: shifted_sphere_points_def)
  have on_sphere: "\<forall>p\<in>set shifted_sphere_points.
      case p of (x, y, z) \<Rightarrow> (x - 1)\<^sup>2 + (y - 2)\<^sup>2 + (z - 3)\<^sup>2 = 2\<^sup>2"
    by (simp add: shifted_sphere_points_def)
  have A: "?A = map spec_row shifted_sphere_points" and b: "?b = map spec_rhs shifted_sphere_points"
    by (simp_all add: system_matrix_def system_rhs_def linear_system_eq)
  have cost: "residual ?A ?b [a, b, c, d]
      = (22 - 2 * (3 * a + 2 * b + 3 * c) + d)\<^sup>2 + (26 - 2 * (a + 4 * b + 3 * c) + d)\<^sup>2
        + (30 - 2 * (a + 2 * b + 5 * c) + d)\<^sup>2 + (14 - 2 * (- a + 2 * b + 3 * c) + d)\<^sup>2"
    for a b c d
    unfolding A b residual_linear_system
    by (simp add: algebraic_cost_def shifted_sphere_points_def)
  have zero: "residual ?A ?b [1, 2, 3, 10] = 0"
    by (simp add: cost)
  have exact: "least_squares_solution ?A ?b [1, 2, 3, 10]"
    unfolding least_squares_solution_def using zero residual_nonneg by simp
  have solver: "\<exists>res. shifted_sphere_solver ?A ?b = Inr res \<and> least_squares_solution ?A ?b res"
    using exact by (simp add: shifted_sphere_solver_def)
  have only: "u = [1, 2, 3, 10]" if u: "least_squares_solution ?A ?b u" for u
  proof -
    from u have "length u = 4" by (simp add: least_squares_solution_def)
    then obtain a b c d where abcd: "u = [a, b, c, d]" by (rule list4)
    from u have "residual ?A ?b u \<le> residual ?A ?b [1, 2, 3, 10]"
      by (simp add: least_squares_solution_def)
    with zero residual_nonneg [of ?A ?b u] have "residual ?A ?b [a, b, c, d] = 0"
      by (simp add: abcd)
    then have sum: "(22 - 2 * (3 * a + 2 * b + 3 * c) + d)\<^sup>2 + (26 - 2 * (a + 4 * b + 3 * c) + d)\<^sup>2
        + (30 - 2 * (a + 2 * b + 5 * c) + d)\<^sup>2 + (14 - 2 * (- a + 2 * b + 3 * c) + d)\<^sup>2 = 0"
      by (simp only: cost)
    have e1: "22 - 2 * (3 * a + 2 * b + 3 * c) + d = 0"
      and e2: "26 - 2 * (a + 4 * b + 3 * c) + d = 0"
      and e3: "30 - 2 * (a + 2 * b + 5 * c) + d = 0"
      and e4: "14 - 2 * (- a + 2 * b + 3 * c) + d = 0"
      using sum by (simp_all add: add_nonneg_eq_0_iff)
    from e1 e4 have "a = 1" by (simp add: algebra_simps)
    moreover from e2 e4 \<open>a = 1\<close> have "b = 2" by (simp add: algebra_simps)
    moreover from e3 e4 \<open>a = 1\<close> have "c = 3" by (simp add: algebra_simps)
    moreover from e4 \<open>a = 1\<close> \<open>b = 2\<close> \<open>c = 3\<close> have "d = 10" by (simp add: algebra_simps)
    ultimately show ?thesis by (simp add: abcd)
  qed
  have unique: "\<forall>u v. least_squares_solution ?A ?b u \<and> least_squares_solution ?A ?b v \<longrightarrow> u = v"
    using only by blast
  have sys: "linear_system shifted_sphere_points
      = ([[-6, -4, -6, 1], [-2, -8, -6, 1], [-2, -4, -10, 1], [2, -4, -6, 1]], [-22, -26, -30, -14])"
    by (simp add: linear_system_eq shifted_sphere_points_def spec_row_def spec_rhs_def)
  have r: "(0::real) \<le> 2" by simp
  from sphere_fit_exact_recovery [where ps = shifted_sphere_points and cx = 1 and cy = 2
      and cz = 3 and r = 2 and lstsq = shifted_sphere_solver, OF len on_sphere r solver unique]
    len sys
  show ?thesis by (simp add: system_matrix_def system_rhs_def)
qed

text \<open>
  C1, as the code has it. When the solved \<open>k\<close> exceeds the squared norm of the solved centre,
  the cell makes no check and raises nothing: it completes and reports the radius
  \<open>np.sqrt\<close> of a negative number, which is \<open>nan\<close>. It reports no complex, negative or
  zero radius there.
\<close>

theorem sphere_fit_invalid_radius_is_nan:
  assumes "lstsq (system_matrix ps) (system_rhs ps) = Inr res" and "length res = 4"
    and "(linalg_norm (take 3 res))\<^sup>2 < res ! 3"
  shows "sphere_from_solution res = Inr \<lparr>location = take 3 res, radius = NaN\<rparr>
    \<and> fit_sphere_least_squares lstsq ps = Inr \<lparr>location = take 3 res, radius = NaN\<rparr>"
  using assms by (simp add: fit_sphere_least_squares_def sphere_from_solution_def np_sqrt_def)

theorem sphere_fit_invalid_radius_is_nan_witness:
  "invalid_sphere_solver (system_matrix unit_sphere_points) (system_rhs unit_sphere_points)
      = Inr [0, 0, 0, 1]
    \<and> length [0, 0, 0, 1 :: real] = 4
    \<and> (linalg_norm (take 3 [0, 0, 0, 1]))\<^sup>2 < [0, 0, 0, 1] ! 3
    \<and> fit_sphere_least_squares invalid_sphere_solver unit_sphere_points
        = Inr \<lparr>location = [0, 0, 0], radius = NaN\<rparr>"
proof -
  have solver: "invalid_sphere_solver (system_matrix unit_sphere_points)
      (system_rhs unit_sphere_points) = Inr [0, 0, 0, 1]"
    by (simp add: invalid_sphere_solver_def)
  have len: "length [0, 0, 0, 1 :: real] = 4" by simp
  have above: "(linalg_norm (take 3 [0, 0, 0, 1]))\<^sup>2 < [0, 0, 0, 1] ! 3"
    by (simp add: linalg_norm_sq3)
  from sphere_fit_invalid_radius_is_nan [where lstsq = invalid_sphere_solver
      and ps = unit_sphere_points and res = "[0, 0, 0, 1]", OF solver len above] solver len above
  show ?thesis by simp
qed

text \<open>
  C1, as the spec states it, fails: for the solution vector \<open>[1, 2, 3, 15]\<close>, whose \<open>k = 15\<close>
  exceeds the squared norm \<open>14\<close> of its centre, the cell ends normally with the radius
  \<open>nan\<close> and not with an error. (By \<open>least_squares_radius_real\<close> an exact
  least-squares solution of the system of a non-empty point list never has \<open>k\<close> above
  \<open>\<parallel>c\<parallel>\<^sup>2\<close>; the vector stands for the answer of an inexact solver.)
\<close>

theorem sphere_fit_invalid_radius_not_signalled:
  "(linalg_norm (take 3 [1, 2, 3, 15]))\<^sup>2 = 14
    \<and> [1, 2, 3, 15 :: real] ! 3 = 15
    \<and> sphere_from_solution [1, 2, 3, 15] = Inr \<lparr>location = [1, 2, 3], radius = NaN\<rparr>"
  by (simp add: sphere_from_solution_def linalg_norm_sq3 np_sqrt_def)

section \<open>Claims about the registration errors\<close>

text \<open>
  C4. For every transform and every two point sequences of equal length,
  \<open>registration_errors\<close> returns the five components mean, standard deviation, minimum,
  maximum and the distances, where the distance at index \<open>i\<close> is the Euclidean distance
  between the transformed source point \<open>i\<close> and the target point \<open>i\<close>, and, for at least
  one pair of points, the four statistics are the mean, the (population) standard
  deviation, the least and the greatest element of that sequence. The result is a
  function of the three arguments alone.
\<close>

theorem registration_errors_statistics:
  assumes "length source_points = length target_points"
  shows "\<exists>errors. registration_errors tx source_points target_points
            = Inr (mean errors, std errors, minimum errors, maximum errors, errors)
    \<and> length errors = length source_points
    \<and> (\<forall>i<length source_points.
          errors ! i = euclidean_distance (tx (source_points ! i)) (target_points ! i)
          \<and> 0 \<le> errors ! i)
    \<and> (errors \<noteq> [] \<longrightarrow>
          mean errors * real (length errors) = sum_list errors
          \<and> 0 \<le> std errors
          \<and> (std errors)\<^sup>2 * real (length errors) = (\<Sum>d\<leftarrow>errors. (d - mean errors)\<^sup>2)
          \<and> minimum errors = Min (set errors)
          \<and> maximum errors = Max (set errors))"
proof -
  let ?errors = "map2 (\<lambda>p_source p_target. euclidean_distance (tx p_source) p_target)
      source_points target_points"
  have result: "registration_errors tx source_points target_points
      = Inr (mean ?errors, std ?errors, minimum ?errors, maximum ?errors, ?errors)"
    using assms by (simp add: registration_errors_def Let_def)
  have len: "length ?errors = length source_points"
    using assms by simp
  have nth: "\<forall>i<length source_points.
      ?errors ! i = euclidean_distance (tx (source_points ! i)) (target_points ! i)
      \<and> 0 \<le> ?errors ! i"
    using assms by (simp add: euclidean_distance_nonneg)
  have stats: "?errors \<noteq> [] \<longrightarrow>
      mean ?errors * real (length ?errors) = sum_list ?errors
      \<and> 0 \<le> std ?errors
      \<and> (std ?errors)\<^sup>2 * real (length ?errors) = (\<Sum>d\<leftarrow>?errors. (d - mean ?errors)\<^sup>2)
      \<and> minimum ?errors = Min (set ?errors)
      \<and> maximum ?errors = Max (set ?errors)"
    using mean_times_length [of ?errors] std_nonneg [of ?errors] std_squared [of ?errors]
      minimum_eq_Min [of ?errors] maximum_eq_Max [of ?errors]
    by blast
  from result len nth stats show ?thesis by blast
qed

theorem registration_errors_statistics_witness:
  "length fixed_pair = length moving_pair
    \<and> (\<exists>errors. registration_errors identity_transform fixed_pair moving_pair
            = Inr (mean errors, std errors, minimum errors, maximum errors, errors)
          \<and> errors = [1, 2]
          \<and> mean errors = 3 / 2 \<and> (std errors)\<^sup>2 = 1 / 4
          \<and> minimum errors = 1 \<and> maximum errors = 2
          \<and> Min (set errors) = 1 \<and> Max (set errors) = 2)"
proof -
  have len: "length fixed_pair = length moving_pair"
    by (simp add: fixed_pair_def moving_pair_def)
  from registration_errors_statistics [OF len, of identity_transform] obtain errors where
    res: "registration_errors identity_transform fixed_pair moving_pair
            = Inr (mean errors, std errors, minimum errors, maximum errors, errors)"
    and l: "length errors = length fixed_pair"
    and nth: "\<forall>i<length fixed_pair.
          errors ! i = euclidean_distance (identity_transform (fixed_pair ! i)) (moving_pair ! i)
          \<and> 0 \<le> errors ! i"
    and stats: "errors \<noteq> [] \<longrightarrow>
          mean errors * real (length errors) = sum_list errors
          \<and> 0 \<le> std errors
          \<and> (std errors)\<^sup>2 * real (length errors) = (\<Sum>d\<leftarrow>errors. (d - mean errors)\<^sup>2)
          \<and> minimum errors = Min (set errors)
          \<and> maximum errors = Max (set errors)"
    by blast
  from l have l2: "length errors = 2" by (simp add: fixed_pair_def)
  then obtain e0 e1 where e: "errors = [e0, e1]"
    by (cases errors; cases "tl errors") auto
  from nth have "errors ! 0 = 1" "errors ! 1 = 2"
    by (simp_all add: fixed_pair_def moving_pair_def identity_transform_def
        euclidean_distance_def linalg_norm_def)
  with e have errors: "errors = [1, 2]" by simp
  from stats have m: "mean errors = 3 / 2" by (simp add: errors)
  from stats have "(std errors)\<^sup>2 * real (length errors) = (\<Sum>d\<leftarrow>errors. (d - mean errors)\<^sup>2)"
    by (simp add: errors)
  then have "(std errors)\<^sup>2 * 2 = (1 - 3 / 2)\<^sup>2 + (2 - 3 / 2)\<^sup>2"
    unfolding m by (simp add: errors)
  then have s: "(std errors)\<^sup>2 = 1 / 4"
    by (simp add: power2_eq_square)
  from stats have mm: "minimum errors = 1" "maximum errors = 2"
    "Min (set errors) = 1" "Max (set errors) = 2"
    by (simp_all add: errors)
  from len res errors m s mm show ?thesis by blast
qed

text \<open>
  C5. \<open>registration_errors\<close> fails with \<open>DimensionMismatch\<close> whenever the two point
  sequences differ in length; for sequences of equal length it does not fail, and the
  distance sequence it returns is as long as each of them: nothing is cut off and nothing
  is added.
\<close>

theorem registration_errors_dimension_mismatch:
  "(length source_points \<noteq> length target_points \<longrightarrow>
      registration_errors tx source_points target_points = Inl DimensionMismatch)
   \<and> (length source_points = length target_points \<longrightarrow>
        registration_errors tx source_points target_points \<noteq> Inl DimensionMismatch
        \<and> (\<exists>mean_error std_error min_error max_error errors.
              registration_errors tx source_points target_points
                = Inr (mean_error, std_error, min_error, max_error, errors)
              \<and> length errors = length source_points
              \<and> length errors = length target_points))"
  by (simp add: registration_errors_def Let_def)

theorem registration_errors_dimension_mismatch_witness:
  "length fixed_pair \<noteq> length moving_triple
    \<and> registration_errors identity_transform fixed_pair moving_triple = Inl DimensionMismatch
    \<and> length fixed_pair = length moving_pair
    \<and> registration_errors identity_transform fixed_pair moving_pair \<noteq> Inl DimensionMismatch
    \<and> (\<exists>mean_error std_error min_error max_error errors.
          registration_errors identity_transform fixed_pair moving_pair
            = Inr (mean_error, std_error, min_error, max_error, errors)
          \<and> length errors = length fixed_pair
          \<and> length errors = length moving_pair)"
proof -
  have differ: "length fixed_pair \<noteq> length moving_triple"
    by (simp add: fixed_pair_def moving_triple_def)
  have same: "length fixed_pair = length moving_pair"
    by (simp add: fixed_pair_def moving_pair_def)
  from registration_errors_dimension_mismatch [of fixed_pair moving_triple identity_transform]
    registration_errors_dimension_mismatch [of fixed_pair moving_pair identity_transform]
    differ same
  show ?thesis by blast
qed

end
